theory Spec2Isabelle
  imports Complex_Main
begin

section \<open>Values of the runtime\<close>

text \<open>
  A string is the list of its code units; the embedding covers the code units 0 to 255,
  which are the values of \<^typ>\<open>char\<close>. A thrown value is an \<open>Error\<close> object with its
  message, or some other value, which has no \<open>message\<close> property. A \<open>number\<close> is a
  finite value, \<open>NaN\<close> or an infinity; only its truthiness and the constants 0 and 5 are
  ever computed with. Calls of the logger (\<open>addLog\<close>, \<open>console\<close>) only notify an
  external sink and are left out; every call to a provider and every timer is recorded
  in a trace of events, in the order the calls are made.
\<close>

datatype js_error = Error string | NonError

datatype number = Num rat | NaN | PosInfinity | NegInfinity

datatype Platform = TIKTOK | YOUTUBE | INSTAGRAM | GENERIC

datatype VoiceOption = KORE | FENRIR | PUCK | CHARON | ZEPHYR

datatype plan_type = IMAGE | VIDEO

datatype asset_kind = image | video

record ProjectFile =
  name :: string
  content :: string

record VisualPlanItem =
  type :: plan_type
  description :: string
  imagePrompt :: "string option"
  videoStartTime :: "number option"
  videoEndTime :: "number option"

record VisualAsset =
  asset_type :: asset_kind
  asset_description :: string
  base64 :: "string option"
  prompt :: "string option"
  videoUrl :: "string option"
  videoStart :: "number option"
  videoEnd :: "number option"

record VideoFrame =
  timestamp :: number
  frame_base64 :: string

text \<open>Truthiness of the values that the code tests with \<open>if (x)\<close>, \<open>!x\<close> and \<open>x || y\<close>.\<close>

fun truthy_number :: "number \<Rightarrow> bool" where
  "truthy_number (Num r) = (r \<noteq> 0)"
| "truthy_number NaN = False"
| "truthy_number PosInfinity = True"
| "truthy_number NegInfinity = True"

fun number_or :: "number option \<Rightarrow> number \<Rightarrow> number" where
  "number_or None d = d"
| "number_or (Some x) d = (if truthy_number x then x else d)"

fun truthy_string :: "string option \<Rightarrow> bool" where
  "truthy_string None = False"
| "truthy_string (Some s) = (s \<noteq> [])"

fun string_or :: "string option \<Rightarrow> string \<Rightarrow> string" where
  "string_or None d = d"
| "string_or (Some s) d = (if s \<noteq> [] then s else d)"

text \<open>\<open>lastError?.message || ''\<close>\<close>

fun message_or_empty :: "js_error option \<Rightarrow> string" where
  "message_or_empty None = []"
| "message_or_empty (Some (Error m)) = m"
| "message_or_empty (Some NonError) = []"

datatype part = InlineData string string | TimestampText number | Text string

datatype event =
    TtsRequest string VoiceOption
  | PlanRequest "part list"
  | Connect
  | Predict string nat nat
  | Download string
  | GeminiImageRequest string string
  | Wait rat

section \<open>Image generation strategies\<close>

subsection \<open>\<open>blobToBase64\<close>\<close>

text \<open>\<open>res.split(',')\<close> and the element at index 1, \<open>undefined\<close> when there is none.\<close>

fun split_on :: "char \<Rightarrow> string \<Rightarrow> string list" where
  "split_on sep [] = [[]]"
| "split_on sep (c # cs) =
     (if c = sep then [] # split_on sep cs
      else (case split_on sep cs of
              [] \<Rightarrow> [[c]]
            | p # ps \<Rightarrow> (c # p) # ps))"

fun index_opt :: "'a list \<Rightarrow> nat \<Rightarrow> 'a option" where
  "index_opt xs i = (if i < length xs then Some (xs ! i) else None)"

definition blobToBase64 :: "js_error + string \<Rightarrow> js_error + string option" where
  "blobToBase64 reader_result =
     (case reader_result of
        Inl e \<Rightarrow> Inl e
      | Inr res \<Rightarrow> Inr (index_opt (split_on (CHR '','') res) 1))"

subsection \<open>\<open>generateWithFlux\<close>\<close>

text \<open>
  The primary provider as the code sees it: \<open>connect\<close> is \<open>Client.connect\<close> on the
  given attempt (\<open>None\<close> when it connects), \<open>predict\<close> is \<open>client.predict\<close>, giving the
  \<open>data\<close> property of the result or the value thrown, \<open>fetch_blob\<close> is \<open>fetch\<close> and
  \<open>res.blob()\<close>, and \<open>read_data_url\<close> is the \<open>FileReader\<close> on that blob.
\<close>

datatype image_info = InfoString string | InfoObject "string option"

record 'blob flux_env =
  connect :: "nat \<Rightarrow> js_error option"
  predict :: "nat \<Rightarrow> string \<Rightarrow> nat \<Rightarrow> nat \<Rightarrow> js_error + image_info list option"
  fetch_blob :: "string \<Rightarrow> js_error + 'blob"
  read_data_url :: "'blob \<Rightarrow> js_error + string"

definition MAX_RETRIES :: nat where
  "MAX_RETRIES = 3"

definition INITIAL_DELAY :: rat where
  "INITIAL_DELAY = 2000"

definition enhancedPrompt :: "string \<Rightarrow> string" where
  "enhancedPrompt p =
     p @ '', photorealistic, 8k, highly detailed, cinematic lighting, award winning photography, sharp focus, high fidelity''"

text \<open>\<open>responseData?.[0]\<close> and then the URL: the string itself, or its \<open>url\<close> property.\<close>

fun imageUrl :: "image_info list option \<Rightarrow> string option" where
  "imageUrl None = None"
| "imageUrl (Some []) = None"
| "imageUrl (Some (InfoString s # _)) = Some s"
| "imageUrl (Some (InfoObject u # _)) = u"

text \<open>
  The body of the \<open>try\<close> block of one attempt: \<open>Inl\<close> is the value thrown, \<open>Inr\<close> is
  the value returned from the function.
\<close>

definition flux_attempt ::
  "'blob flux_env \<Rightarrow> string \<Rightarrow> nat \<Rightarrow> nat \<Rightarrow> nat \<Rightarrow> (js_error + string option) \<times> event list" where
  "flux_attempt env p width height attempt =
     (case connect env attempt of
        Some e \<Rightarrow> (Inl e, [Connect])
      | None \<Rightarrow>
         (case predict env attempt (enhancedPrompt p) width height of
            Inl e \<Rightarrow> (Inl e, [Connect, Predict (enhancedPrompt p) width height])
          | Inr responseData \<Rightarrow>
             (case imageUrl responseData of
                None \<Rightarrow> (Inr None, [Connect, Predict (enhancedPrompt p) width height])
              | Some url \<Rightarrow>
                 (if url = [] then (Inr None, [Connect, Predict (enhancedPrompt p) width height])
                  else
                    (case fetch_blob env url of
                       Inl e \<Rightarrow>
                         (Inl e, [Connect, Predict (enhancedPrompt p) width height, Download url])
                     | Inr blob \<Rightarrow>
                         (blobToBase64 (read_data_url env blob),
                          [Connect, Predict (enhancedPrompt p) width height, Download url]))))))"

function flux_loop ::
  "'blob flux_env \<Rightarrow> string \<Rightarrow> nat \<Rightarrow> nat \<Rightarrow> nat \<Rightarrow> event list \<Rightarrow> string option \<times> event list" where
  "flux_loop env p width height attempt tr =
     (if attempt \<le> MAX_RETRIES then
        (case flux_attempt env p width height attempt of
           (Inr r, evs) \<Rightarrow> (r, tr @ evs)
         | (Inl e, evs) \<Rightarrow>
             (if attempt = MAX_RETRIES
              then flux_loop env p width height (attempt + 1) (tr @ evs)
              else flux_loop env p width height (attempt + 1)
                     (tr @ evs @ [Wait ((3 / 2) ^ attempt * INITIAL_DELAY)])))
      else (None, tr))"
  by pat_completeness auto
termination
  by (relation "measure (\<lambda>(env, p, width, height, attempt, tr). Suc MAX_RETRIES - attempt)") auto

declare flux_loop.simps [simp del]

definition generateWithFlux ::
  "'blob flux_env \<Rightarrow> string \<Rightarrow> nat \<Rightarrow> nat \<Rightarrow> string option \<times> event list" where
  "generateWithFlux env p width height = flux_loop env p width height 1 []"

subsection \<open>\<open>generateWithGemini\<close>\<close>

text \<open>
  The fallback provider: \<open>gemini_image prompt aspectRatio\<close> is the request to the image
  model. Its answer is \<open>response.candidates?.[0]?.content?.parts\<close>, each part given by
  its \<open>inlineData.data\<close> when it has one.
\<close>

fun first_inline_data :: "string option list \<Rightarrow> string option" where
  "first_inline_data [] = None"
| "first_inline_data (d # ds) = (if truthy_string d then d else first_inline_data ds)"

definition generateWithGemini ::
  "(string \<Rightarrow> string \<Rightarrow> js_error + string option list option) \<Rightarrow> string \<Rightarrow> Platform
     \<Rightarrow> string option \<times> event list" where
  "generateWithGemini gemini_image p platform =
     (let aspectRatio =
            (if platform = TIKTOK \<or> platform = INSTAGRAM then ''9:16''
             else if platform = YOUTUBE \<or> platform = GENERIC then ''16:9''
             else ''1:1'')
      in (case gemini_image p aspectRatio of
            Inl e \<Rightarrow> None
          | Inr None \<Rightarrow> None
          | Inr (Some parts) \<Rightarrow> first_inline_data parts,
          [GeminiImageRequest p aspectRatio]))"

subsection \<open>\<open>generateAsset\<close>\<close>

definition generateAsset ::
  "'blob flux_env \<Rightarrow> (string \<Rightarrow> string \<Rightarrow> js_error + string option list option)
     \<Rightarrow> VisualPlanItem \<Rightarrow> Platform \<Rightarrow> VisualAsset option \<times> event list" where
  "generateAsset env gemini_image planItem platform =
     (if type planItem = VIDEO then
        (Some \<lparr>asset_type = video, asset_description = description planItem,
               base64 = None, prompt = None, videoUrl = None,
               videoStart = Some (number_or (videoStartTime planItem) (Num 0)),
               videoEnd = Some (number_or (videoEndTime planItem) (Num 5))\<rparr>, [])
      else
        (let isPortrait = (platform = TIKTOK \<or> platform = INSTAGRAM);
             width = (if isPortrait then 768 else 1024);
             height = (if isPortrait then 1024 else 768);
             p = string_or (imagePrompt planItem) (description planItem);
             (fluxBase64, tr1) = generateWithFlux env p width height
         in if truthy_string fluxBase64 then
              (Some \<lparr>asset_type = image, asset_description = description planItem,
                     base64 = fluxBase64, prompt = Some p, videoUrl = None,
                     videoStart = None, videoEnd = None\<rparr>, tr1)
            else
              (let (geminiBase64, tr2) = generateWithGemini gemini_image p platform
               in if truthy_string geminiBase64 then
                    (Some \<lparr>asset_type = image, asset_description = description planItem,
                           base64 = geminiBase64, prompt = Some p, videoUrl = None,
                           videoStart = None, videoEnd = None\<rparr>, tr1 @ tr2)
                  else (None, tr1 @ tr2))))"

text \<open>The attempts made on the primary provider: each one starts with \<open>Client.connect\<close>.\<close>

definition attempts_made :: "event list \<Rightarrow> nat" where
  "attempts_made tr = length (filter (\<lambda>ev. ev = Connect) tr)"

section \<open>Text sanitizer\<close>

text \<open>
  The character classes of the regular expressions, on code units below 256: \<open>\s\<close> and
  \<open>trim\<close> take the tab, line feed, vertical tab, form feed, carriage return, space and
  no-break space; \<open>.\<close> takes everything but the line terminators.
\<close>

definition is_space :: "char \<Rightarrow> bool" where
  "is_space c = (c \<in> set [CHR 0x09, CHR 0x0A, CHR 0x0B, CHR 0x0C, CHR 0x0D, CHR 0x20, CHR 0xA0])"

definition is_line_terminator :: "char \<Rightarrow> bool" where
  "is_line_terminator c = (c \<in> set [CHR 0x0A, CHR 0x0D])"

definition trim :: "string \<Rightarrow> string" where
  "trim s = rev (dropWhile is_space (rev (dropWhile is_space s)))"

text \<open>The letters A to Z in lower case, as the flag \<open>i\<close> compares them.\<close>

definition ascii_lower :: "char \<Rightarrow> char" where
  "ascii_lower c =
     (case map_of (zip ''ABCDEFGHIJKLMNOPQRSTUVWXYZ'' ''abcdefghijklmnopqrstuvwxyz'') c of
        Some l \<Rightarrow> l
      | None \<Rightarrow> c)"

subsection \<open>\<open>cleanScriptForTTS\<close>\<close>

text \<open>
  \<open>/\[.*?\]/g\<close> and \<open>/\(.*?\)/g\<close>: from an opening character, the lazy \<open>.*?\<close> runs to
  the first closing character, unless a line terminator comes before it. \<open>span_end\<close> is
  the number of characters after the opening one that the match takes.
\<close>

fun span_end :: "char \<Rightarrow> string \<Rightarrow> nat option" where
  "span_end cl [] = None"
| "span_end cl (d # ds) =
     (if d = cl then Some 1
      else if is_line_terminator d then None
      else map_option Suc (span_end cl ds))"

function replace_span :: "char \<Rightarrow> char \<Rightarrow> string \<Rightarrow> string" where
  "replace_span opn cl [] = []"
| "replace_span opn cl (c # cs) =
     (if c = opn then
        (case span_end cl cs of
           Some n \<Rightarrow> CHR '' '' # replace_span opn cl (drop n cs)
         | None \<Rightarrow> c # replace_span opn cl cs)
      else c # replace_span opn cl cs)"
  by pat_completeness auto
termination
  by (relation "measure (\<lambda>(opn, cl, s). length s)") auto

text \<open>\<open>/\s+/g\<close> replaced by one space.\<close>

function collapse_spaces :: "string \<Rightarrow> string" where
  "collapse_spaces [] = []"
| "collapse_spaces (c # cs) =
     (if is_space c then CHR '' '' # collapse_spaces (dropWhile is_space cs)
      else c # collapse_spaces cs)"
  by pat_completeness auto
termination
  by (relation "measure length") (auto simp: length_dropWhile_le less_Suc_eq_le)

text \<open>\<open>/\*+/g\<close> replaced by nothing: every asterisk goes.\<close>

definition cleanScriptForTTS :: "string \<Rightarrow> string" where
  "cleanScriptForTTS text =
     trim (collapse_spaces
       (replace_span (CHR ''('') (CHR '')'')
         (replace_span (CHR ''['') (CHR '']'')
           (filter (\<lambda>c. c \<noteq> CHR ''*'') text))))"

subsection \<open>\<open>cleanJson\<close>\<close>

text \<open>
  \<open>/```json/gi\<close> and \<open>/```/g\<close> replaced by nothing, scanning from the left:
  \<open>json_fence_at\<close> and \<open>fence_at\<close> say that the expression matches at the start of the
  text, and a match is skipped as a whole.
\<close>

definition json_fence_at :: "string \<Rightarrow> bool" where
  "json_fence_at s = (map ascii_lower (take 7 s) = ''```json'')"

definition fence_at :: "string \<Rightarrow> bool" where
  "fence_at s = (take 3 s = ''```'')"

function strip_json_fences :: "string \<Rightarrow> string" where
  "strip_json_fences [] = []"
| "strip_json_fences (c # cs) =
     (if json_fence_at (c # cs) then strip_json_fences (drop 7 (c # cs))
      else c # strip_json_fences cs)"
  by pat_completeness auto
termination
  by (relation "measure length") auto

function strip_fences :: "string \<Rightarrow> string" where
  "strip_fences [] = []"
| "strip_fences (c # cs) =
     (if fence_at (c # cs) then strip_fences (drop 3 (c # cs))
      else c # strip_fences cs)"
  by pat_completeness auto
termination
  by (relation "measure length") auto

declare strip_json_fences.simps(2) [simp del]
declare strip_fences.simps(2) [simp del]

text \<open>\<open>indexOf\<close> and \<open>lastIndexOf\<close>; \<open>None\<close> is the result -1.\<close>

fun indexOf :: "char \<Rightarrow> string \<Rightarrow> nat option" where
  "indexOf x [] = None"
| "indexOf x (c # cs) = (if c = x then Some 0 else map_option Suc (indexOf x cs))"

fun lastIndexOf :: "char \<Rightarrow> string \<Rightarrow> nat option" where
  "lastIndexOf x [] = None"
| "lastIndexOf x (c # cs) =
     (case lastIndexOf x cs of
        Some i \<Rightarrow> Some (Suc i)
      | None \<Rightarrow> (if c = x then Some 0 else None))"

definition substring :: "string \<Rightarrow> nat \<Rightarrow> nat \<Rightarrow> string" where
  "substring s i j = (if i \<le> j then drop i (take j s) else drop j (take i s))"

text \<open>
  \<open>/,(\s*[\]}])/g\<close> replaced by its group: a comma, the longest run of white space
  after it and a closing bracket or brace become the white space and the bracket.
\<close>

function remove_trailing_commas :: "string \<Rightarrow> string" where
  "remove_trailing_commas [] = []"
| "remove_trailing_commas (c # cs) =
     (if c = CHR '','' then
        (case dropWhile is_space cs of
           [] \<Rightarrow> c # remove_trailing_commas cs
         | d # rest \<Rightarrow>
             (if d = CHR '']'' \<or> d = CHR ''}''
              then takeWhile is_space cs @ d # remove_trailing_commas rest
              else c # remove_trailing_commas cs))
      else c # remove_trailing_commas cs)"
  by pat_completeness auto
termination
  apply (relation "measure length")
     apply auto
  subgoal for cs rest using length_dropWhile_le[of is_space cs] by simp
  subgoal for cs rest using length_dropWhile_le[of is_space cs] by simp
  done

declare remove_trailing_commas.simps [simp del]

definition cleanJson :: "string \<Rightarrow> string" where
  "cleanJson text =
     (if text = [] then ''[]''
      else
        (let clean = strip_fences (strip_json_fences text);
             clean' =
               (case (indexOf (CHR ''['') clean, lastIndexOf (CHR '']'') clean) of
                  (Some start, Some end') \<Rightarrow>
                    (if end' > start then substring clean start (end' + 1) else clean)
                | _ \<Rightarrow> clean)
         in trim (remove_trailing_commas clean')))"

text \<open>
  The sanitizer in the words of its description: the text without every comma that is
  followed, after any white space, by a closing bracket or brace.
\<close>

fun before_closer :: "string \<Rightarrow> bool" where
  "before_closer s =
     (case dropWhile is_space s of [] \<Rightarrow> False | d # _ \<Rightarrow> d = CHR '']'' \<or> d = CHR ''}'')"

fun without_trailing_commas :: "string \<Rightarrow> string" where
  "without_trailing_commas [] = []"
| "without_trailing_commas (c # cs) =
     (if c = CHR '','' \<and> before_closer cs then without_trailing_commas cs
      else c # without_trailing_commas cs)"

text \<open>A run of three backticks somewhere in the text.\<close>

fun has_fence :: "string \<Rightarrow> bool" where
  "has_fence [] = False"
| "has_fence (c # cs) = (fence_at (c # cs) \<or> has_fence cs)"

section \<open>Voice synthesizer\<close>

text \<open>
  The speech model as the code sees it: \<open>tts_generate\<close> is the request of the given
  attempt, giving the value thrown or
  \<open>response.candidates?.[0]?.content?.parts?.[0]?.inlineData?.data\<close>; \<open>decode_audio\<close> is
  the audio context with \<open>decodeBase64\<close> and \<open>decodeAudioData\<close>, which belong to the
  audio utilities.
\<close>

record 'buf tts_env =
  tts_generate :: "nat \<Rightarrow> string \<Rightarrow> VoiceOption \<Rightarrow> js_error + string option"
  decode_audio :: "string \<Rightarrow> js_error + 'buf"

text \<open>The body of the \<open>try\<close> block of one attempt.\<close>

definition tts_attempt ::
  "'buf tts_env \<Rightarrow> string \<Rightarrow> VoiceOption \<Rightarrow> nat \<Rightarrow> js_error + ('buf \<times> string)" where
  "tts_attempt env cleanText voice attempt =
     (case tts_generate env attempt cleanText voice of
        Inl e \<Rightarrow> Inl e
      | Inr None \<Rightarrow> Inl (Error ''No audio data received from API.'')
      | Inr (Some base64Audio) \<Rightarrow>
          (if base64Audio = [] then Inl (Error ''No audio data received from API.'')
           else (case decode_audio env base64Audio of
                   Inl e \<Rightarrow> Inl e
                 | Inr buffer \<Rightarrow> Inr (buffer, base64Audio))))"

function tts_loop ::
  "'buf tts_env \<Rightarrow> string \<Rightarrow> VoiceOption \<Rightarrow> nat \<Rightarrow> js_error option \<Rightarrow> event list
     \<Rightarrow> (js_error + ('buf \<times> string)) \<times> event list" where
  "tts_loop env cleanText voice attempt lastError tr =
     (if attempt < 3 then
        (case tts_attempt env cleanText voice attempt of
           Inr r \<Rightarrow> (Inr r, tr @ [TtsRequest cleanText voice])
         | Inl e \<Rightarrow>
             tts_loop env cleanText voice (attempt + 1) (Some e)
               (tr @ [TtsRequest cleanText voice, Wait (2000 * (of_nat attempt + 1))]))
      else
        (Inl (Error (''Failed to generate audio after 3 attempts. '' @ message_or_empty lastError)),
         tr))"
  by pat_completeness auto
termination
  by (relation "measure (\<lambda>(env, cleanText, voice, attempt, lastError, tr). 3 - attempt)") auto

declare tts_loop.simps [simp del]

definition generateVoiceover ::
  "'buf tts_env \<Rightarrow> string \<Rightarrow> VoiceOption \<Rightarrow> (js_error + ('buf \<times> string)) \<times> event list" where
  "generateVoiceover env text voice =
     (let cleanText = cleanScriptForTTS text
      in if cleanText = [] then
           (Inl (Error ''Script is empty (or contained only unreadable content).''), [])
         else tts_loop env cleanText voice 0 None [])"

section \<open>JSON values\<close>

text \<open>
  \<open>JSON.parse\<close> belongs to the runtime. The planner takes it as a parameter;
  \<open>JSON_parse\<close> follows the JSON grammar and gives the syntax tree of the value: a number
  is kept as its text and a string as the text between its quotes, whose escape sequences
  are checked and not replaced. The parser descends with a bound on its depth, which
  \<open>JSON_parse\<close> sets beyond the length of the text.
\<close>

datatype json =
    JNull
  | JBool bool
  | JNumber string
  | JString string
  | JArray "json list"
  | JObject "(string \<times> json) list"

definition is_json_ws :: "char \<Rightarrow> bool" where
  "is_json_ws c = (c \<in> set [CHR 0x09, CHR 0x0A, CHR 0x0D, CHR 0x20])"

definition is_digit :: "char \<Rightarrow> bool" where
  "is_digit c = (c \<in> set ''0123456789'')"

definition is_hex :: "char \<Rightarrow> bool" where
  "is_hex c = (is_digit c \<or> c \<in> set ''abcdefABCDEF'')"

text \<open>The characters of a string after its opening quote, and the text after its closing one.\<close>

function lex_string :: "string \<Rightarrow> (string \<times> string) option" where
  "lex_string [] = None"
| "lex_string (c # cs) =
     (if c = CHR 0x22 then Some ([], cs)
      else if c = CHR 0x5C then
        (case cs of
           [] \<Rightarrow> None
         | e # cs' \<Rightarrow>
             (if e \<in> set [CHR 0x22, CHR 0x5C, CHR ''/'', CHR ''b'', CHR ''f'', CHR ''n'', CHR ''r'', CHR ''t'']
              then map_option (\<lambda>(s, r). (c # e # s, r)) (lex_string cs')
              else if e = CHR ''u'' \<and> 4 \<le> length cs' \<and> list_all is_hex (take 4 cs')
              then map_option (\<lambda>(s, r). (c # e # take 4 cs' @ s, r)) (lex_string (drop 4 cs'))
              else None))
      else if (of_char c :: nat) < 32 then None
      else map_option (\<lambda>(s, r). (c # s, r)) (lex_string cs))"
  by pat_completeness auto
termination
  by (relation "measure length") auto

text \<open>A number: an optional minus, the integer part, an optional fraction and exponent.\<close>

definition lex_digits :: "string \<Rightarrow> (string \<times> string) option" where
  "lex_digits cs =
     (if takeWhile is_digit cs = [] then None
      else Some (takeWhile is_digit cs, dropWhile is_digit cs))"

definition lex_int :: "string \<Rightarrow> (string \<times> string) option" where
  "lex_int cs =
     (case cs of
        [] \<Rightarrow> None
      | d # r \<Rightarrow> (if d = CHR ''0'' then Some ([d], r) else lex_digits cs))"

definition lex_frac :: "string \<Rightarrow> (string \<times> string) option" where
  "lex_frac cs =
     (case cs of
        [] \<Rightarrow> Some ([], cs)
      | d # r \<Rightarrow>
          (if d = CHR ''.'' then map_option (\<lambda>(ds, r'). (d # ds, r')) (lex_digits r)
           else Some ([], cs)))"

definition lex_exp :: "string \<Rightarrow> (string \<times> string) option" where
  "lex_exp cs =
     (case cs of
        [] \<Rightarrow> Some ([], cs)
      | d # r \<Rightarrow>
          (if d = CHR ''e'' \<or> d = CHR ''E'' then
             (case r of
                [] \<Rightarrow> None
              | s # r' \<Rightarrow>
                  (if s = CHR ''+'' \<or> s = CHR ''-''
                   then map_option (\<lambda>(ds, r''). (d # s # ds, r'')) (lex_digits r')
                   else map_option (\<lambda>(ds, r''). (d # ds, r'')) (lex_digits r)))
           else Some ([], cs)))"

definition lex_number :: "string \<Rightarrow> (string \<times> string) option" where
  "lex_number cs =
     (let (sign, r0) = (case cs of
                          [] \<Rightarrow> ([], cs)
                        | d # r \<Rightarrow> (if d = CHR ''-'' then ([d], r) else ([], cs)))
      in case lex_int r0 of
           None \<Rightarrow> None
         | Some (ip, r1) \<Rightarrow>
             (case lex_frac r1 of
                None \<Rightarrow> None
              | Some (fp, r2) \<Rightarrow>
                  (case lex_exp r2 of
                     None \<Rightarrow> None
                   | Some (ep, r3) \<Rightarrow> Some (sign @ ip @ fp @ ep, r3))))"

fun parse_value :: "nat \<Rightarrow> string \<Rightarrow> (json \<times> string) option"
  and parse_elements :: "nat \<Rightarrow> string \<Rightarrow> json list \<Rightarrow> (json \<times> string) option"
  and parse_members :: "nat \<Rightarrow> string \<Rightarrow> (string \<times> json) list \<Rightarrow> (json \<times> string) option"
where
  "parse_value 0 cs = None"
| "parse_value (Suc n) cs =
     (case dropWhile is_json_ws cs of
        [] \<Rightarrow> None
      | c # r \<Rightarrow>
          (if c = CHR ''['' then
             (case dropWhile is_json_ws r of
                [] \<Rightarrow> None
              | d # r' \<Rightarrow> (if d = CHR '']'' then Some (JArray [], r') else parse_elements n r []))
           else if c = CHR ''{'' then
             (case dropWhile is_json_ws r of
                [] \<Rightarrow> None
              | d # r' \<Rightarrow> (if d = CHR ''}'' then Some (JObject [], r') else parse_members n r []))
           else if c = CHR 0x22 then map_option (\<lambda>(s, r'). (JString s, r')) (lex_string r)
           else if take 4 (c # r) = ''true'' then Some (JBool True, drop 4 (c # r))
           else if take 5 (c # r) = ''false'' then Some (JBool False, drop 5 (c # r))
           else if take 4 (c # r) = ''null'' then Some (JNull, drop 4 (c # r))
           else map_option (\<lambda>(s, r'). (JNumber s, r')) (lex_number (c # r))))"
| "parse_elements 0 cs acc = None"
| "parse_elements (Suc n) cs acc =
     (case parse_value n cs of
        None \<Rightarrow> None
      | Some (v, r) \<Rightarrow>
          (case dropWhile is_json_ws r of
             [] \<Rightarrow> None
           | d # r' \<Rightarrow>
               (if d = CHR '','' then parse_elements n r' (acc @ [v])
                else if d = CHR '']'' then Some (JArray (acc @ [v]), r')
                else None)))"
| "parse_members 0 cs acc = None"
| "parse_members (Suc n) cs acc =
     (case dropWhile is_json_ws cs of
        [] \<Rightarrow> None
      | q # r \<Rightarrow>
          (if q = CHR 0x22 then
             (case lex_string r of
                None \<Rightarrow> None
              | Some (k, r1) \<Rightarrow>
                  (case dropWhile is_json_ws r1 of
                     [] \<Rightarrow> None
                   | colon # r2 \<Rightarrow>
                       (if colon = CHR '':'' then
                          (case parse_value n r2 of
                             None \<Rightarrow> None
                           | Some (v, r3) \<Rightarrow>
                               (case dropWhile is_json_ws r3 of
                                  [] \<Rightarrow> None
                                | d # r4 \<Rightarrow>
                                    (if d = CHR '','' then parse_members n r4 (acc @ [(k, v)])
                                     else if d = CHR ''}'' then Some (JObject (acc @ [(k, v)]), r4)
                                     else None)))
                        else None)))
           else None))"

definition JSON_parse :: "string \<Rightarrow> json option" where
  "JSON_parse text =
     (case parse_value (Suc (length text)) text of
        None \<Rightarrow> None
      | Some (v, r) \<Rightarrow> (if dropWhile is_json_ws r = [] then Some v else None))"

text \<open>The elements of a value that is an array, and a property of one that is an object.\<close>

fun elements :: "json \<Rightarrow> json list option" where
  "elements (JArray vs) = Some vs"
| "elements _ = None"

fun property :: "string \<Rightarrow> json \<Rightarrow> json option" where
  "property k (JObject kvs) = map_of kvs k"
| "property k _ = None"

section \<open>Visual planner\<close>

text \<open>\<open>join\<close> of an array of strings.\<close>

fun join :: "string \<Rightarrow> string list \<Rightarrow> string" where
  "join sep [] = []"
| "join sep [x] = x"
| "join sep (x # y # ys) = x @ sep @ join sep (y # ys)"

definition fileContext :: "ProjectFile list \<Rightarrow> string" where
  "fileContext files =
     take 5000 (join ''\<newline>\<newline>''
       (map (\<lambda>f. name f @ '':\<newline>'' @ take 1000 (content f)) files))"

definition MAX_CONTEXT_FRAMES :: nat where
  "MAX_CONTEXT_FRAMES = 5"

text \<open>
  The sampling loop. A frame contributes two parts, its image and the text
  \<open>[Timestamp: ...s]\<close> with its timestamp, for which \<open>TimestampText\<close> stands.
\<close>

function frame_loop :: "VideoFrame list \<Rightarrow> nat \<Rightarrow> nat \<Rightarrow> part list \<Rightarrow> part list" where
  "frame_loop videoFrames step i frameParts =
     (if i < length videoFrames then
        (if real MAX_CONTEXT_FRAMES \<le> real (length frameParts) / 2 then frameParts
         else frame_loop videoFrames step (i + step)
                (frameParts @ [InlineData ''image/jpeg'' (frame_base64 (videoFrames ! i)),
                               TimestampText (timestamp (videoFrames ! i))]))
      else frameParts)"
  by pat_completeness auto
termination
  by (relation "measure (\<lambda>(videoFrames, step, i, frameParts). 2 * MAX_CONTEXT_FRAMES - length frameParts)")
     (auto simp: MAX_CONTEXT_FRAMES_def)

declare frame_loop.simps [simp del]

definition frameParts :: "VideoFrame list option \<Rightarrow> part list" where
  "frameParts videoFrames =
     (case videoFrames of
        None \<Rightarrow> []
      | Some fs \<Rightarrow>
          (if length fs > 0 then
             frame_loop fs (nat \<lceil>real (length fs) / real MAX_CONTEXT_FRAMES\<rceil>) 0 []
           else []))"

definition frameContext :: "VideoFrame list option \<Rightarrow> string" where
  \<open>frameContext videoFrames =
     (case videoFrames of
        None \<Rightarrow> []
      | Some fs \<Rightarrow>
          (if length fs > 0 then
             ''I have uploaded frames from a demo video of the app. Use 'VIDEO' type if a frame matches the script content.''
           else []))\<close>

definition textPrompt :: "string \<Rightarrow> string \<Rightarrow> string \<Rightarrow> string" where
  \<open>textPrompt script file_text frame_text =
     ''\<newline>''
     @ ''    You are a video director. \<newline>''
     @ ''    Script: "''
     @ script
     @ ''"\<newline>''
     @ ''    \<newline>''
     @ ''    Source Code Context: ''
     @ file_text
     @ ''\<newline>''
     @ ''    \<newline>''
     @ ''    ''
     @ frame_text
     @ ''\<newline>''
     @ ''\<newline>''
     @ ''    TASK:\<newline>''
     @ ''    Break the script into 4-6 visual scenes. \<newline>''
     @ ''    For each scene, decide whether to generate a NEW AI image ('IMAGE') or use a clip from the demo video ('VIDEO').\<newline>''
     @ ''    \<newline>''
     @ ''    RULES:\<newline>''
     @ ''    1. Use 'VIDEO' ONLY if the uploaded frames clearly show the feature mentioned in that part of the script.\<newline>''
     @ ''    2. If 'VIDEO', provide the start and end timestamp based on the provided frames.\<newline>''
     @ ''    3. If 'IMAGE', provide a highly detailed prompt for an AI image generator (modern, 3D, high-tech style).\<newline>''
     @ ''    4. Keep descriptions and prompts concise (under 50 words).\<newline>''
     @ ''\<newline>''
     @ ''    OUTPUT:\<newline>''
     @ ''    Return a raw JSON Array of objects. Do not include markdown formatting.\<newline>''
     @ ''    Schema:\<newline>''
     @ ''    [\<newline>''
     @ ''      {\<newline>''
     @ ''        "type": "IMAGE" | "VIDEO",\<newline>''
     @ ''        "description": "string",\<newline>''
     @ ''        "imagePrompt": "string",\<newline>''
     @ ''        "videoStartTime": number,\<newline>''
     @ ''        "videoEndTime": number\<newline>''
     @ ''      }\<newline>''
     @ ''    ]\<newline>''
     @ ''  ''\<close>

definition request_parts :: "string \<Rightarrow> ProjectFile list \<Rightarrow> VideoFrame list option \<Rightarrow> part list" where
  "request_parts script files videoFrames =
     frameParts videoFrames
     @ [Text (textPrompt script (fileContext files) (frameContext videoFrames))]"

definition fallback_plan :: json where
  "fallback_plan =
     JArray
       [JObject [(''type'', JString ''IMAGE''), (''description'', JString ''Intro''),
                 (''imagePrompt'', JString ''Futuristic app dashboard glowing 3d render, purple and blue neon'')],
        JObject [(''type'', JString ''IMAGE''), (''description'', JString ''Feature Highlight''),
                 (''imagePrompt'', JString ''Abstract code visualization high tech blue and purple'')],
        JObject [(''type'', JString ''IMAGE''), (''description'', JString ''User Benefit''),
                 (''imagePrompt'', JString ''Happy user holding phone modern style, photorealistic'')],
        JObject [(''type'', JString ''IMAGE''), (''description'', JString ''Call to Action''),
                 (''imagePrompt'', JString ''Sleek product logo minimalist background, cinematic lighting'')]]"

text \<open>
  \<open>generateVisualPlan\<close>: \<open>generate\<close> is the request to the model, giving the value thrown
  or \<open>response.text\<close>. The inner \<open>try\<close> throws again what \<open>JSON.parse\<close> throws, so both
  failures arrive in the outer \<open>catch\<close>, which returns the fallback plan. The result is the
  value that the function returns; nothing checks that it is an array of plan items.
\<close>

definition plan_try :: "(string \<Rightarrow> json option) \<Rightarrow> (part list \<Rightarrow> js_error + string option)
     \<Rightarrow> part list \<Rightarrow> js_error + json" where
  "plan_try parse generate parts =
     (case generate parts of
        Inl e \<Rightarrow> Inl e
      | Inr text \<Rightarrow>
          (case parse (cleanJson (string_or text ''[]'')) of
             None \<Rightarrow> Inl (Error ''JSON.parse'')
           | Some plan \<Rightarrow> Inr plan))"

definition generateVisualPlan ::
  "(string \<Rightarrow> json option) \<Rightarrow> (part list \<Rightarrow> js_error + string option)
     \<Rightarrow> string \<Rightarrow> ProjectFile list \<Rightarrow> VideoFrame list option \<Rightarrow> json \<times> event list" where
  "generateVisualPlan parse generate script files videoFrames =
     (case plan_try parse generate (request_parts script files videoFrames) of
        Inl e \<Rightarrow> fallback_plan
      | Inr plan \<Rightarrow> plan,
      [PlanRequest (request_parts script files videoFrames)])"

text \<open>The number of turns that the sampling loop has before it, from index \<open>i\<close> on.\<close>

definition remaining :: "nat \<Rightarrow> nat \<Rightarrow> nat \<Rightarrow> nat" where
  "remaining n s i = (if i < n then (n - i + s - 1) div s else 0)"

section \<open>Archive text extraction\<close>

text \<open>
  \<open>toLowerCase\<close> on the code units below 256: the letters A to Z and the capital letters
  of the upper half, which lie 32 below their small letters.
\<close>

definition lower_char :: "char \<Rightarrow> char" where
  "lower_char c =
     (let n = (of_char c :: nat)
      in if (65 \<le> n \<and> n \<le> 90) \<or> (192 \<le> n \<and> n \<le> 214) \<or> (216 \<le> n \<and> n \<le> 222)
         then char_of (n + 32) else c)"

definition toLowerCase :: "string \<Rightarrow> string" where
  "toLowerCase s = map lower_char s"

definition endsWith :: "string \<Rightarrow> string \<Rightarrow> bool" where
  "endsWith s ext = (length ext \<le> length s \<and> drop (length s - length ext) s = ext)"

fun includes_str :: "string \<Rightarrow> string \<Rightarrow> bool" where
  "includes_str [] sub = (sub = [])"
| "includes_str (c # cs) sub = (take (length sub) (c # cs) = sub \<or> includes_str cs sub)"

definition RELEVANT_EXTENSIONS :: "string list" where
  "RELEVANT_EXTENSIONS =
     [''.txt'', ''.md'', ''.json'', ''.js'', ''.ts'', ''.tsx'', ''.jsx'',
      ''.html'', ''.css'', ''.py'', ''.java'', ''.c'', ''.cpp'', ''.h'']"

definition MAX_FILES :: nat where
  "MAX_FILES = 50"

definition MAX_TOTAL_SIZE :: nat where
  "MAX_TOTAL_SIZE = 500 * 1024"

definition isRelevant :: "string \<Rightarrow> bool" where
  "isRelevant filename = list_ex (\<lambda>ext. endsWith (toLowerCase filename) ext) RELEVANT_EXTENSIONS"

text \<open>
  An entry of the archive: whether it is a directory, and what \<open>async('string')\<close> gives,
  the decoded text or the value thrown. The archive is the list of its entries by name, in
  the order of \<open>Object.keys\<close>; \<open>loaded\<close> below is what reading the file and \<open>loadAsync\<close>
  give, the archive or the value with which the promise is rejected.
\<close>

record zip_entry =
  dir :: bool
  async_string :: "js_error + string"

text \<open>The comparison of the sort, which is stable: names with \<open>readme\<close> come first.\<close>

definition score :: "string \<Rightarrow> int" where
  "score a = (if includes_str (toLowerCase a) ''readme'' then - 1 else 1)"

fun extract_loop ::
  "(string \<rightharpoonup> zip_entry) \<Rightarrow> string list \<Rightarrow> ProjectFile list \<Rightarrow> nat
     \<Rightarrow> js_error + ProjectFile list" where
  "extract_loop zip_files [] files totalSize = Inr files"
| "extract_loop zip_files (filename # rest) files totalSize =
     (if length files \<ge> MAX_FILES then Inr files
      else if totalSize \<ge> MAX_TOTAL_SIZE then Inr files
      else
        (case zip_files filename of
           None \<Rightarrow> Inl (Error ''TypeError'')
         | Some fileEntry \<Rightarrow>
             (if dir fileEntry then extract_loop zip_files rest files totalSize
              else if \<not> isRelevant filename then extract_loop zip_files rest files totalSize
              else
                (case async_string fileEntry of
                   Inl e \<Rightarrow> Inl e
                 | Inr textContent \<Rightarrow>
                     (if CHR 0x00 \<in> set textContent
                      then extract_loop zip_files rest files totalSize
                      else extract_loop zip_files rest
                             (files @ [\<lparr>name = filename, content = textContent\<rparr>])
                             (totalSize + length textContent))))))"

definition extractTextFromZip ::
  "js_error + (string \<times> zip_entry) list \<Rightarrow> js_error + ProjectFile list" where
  "extractTextFromZip loaded =
     (case loaded of
        Inl e \<Rightarrow> Inl e
      | Inr contents \<Rightarrow>
          extract_loop (map_of contents) (sort_key score (map fst contents)) [] 0)"

text \<open>The cumulative length of the texts of a list of files.\<close>

definition total_length :: "ProjectFile list \<Rightarrow> nat" where
  "total_length files = sum_list (map (\<lambda>f. length (content f)) files)"

section \<open>Concrete inputs\<close>

text \<open>
  Providers and plan items on which the properties below are evaluated: a primary provider
  whose first answer holds no image, one whose first call throws, and one that throws
  first and then answers without a URL; a fallback provider that answers without parts.
\<close>

definition env_empty_first :: "unit flux_env" where
  "env_empty_first =
     \<lparr>connect = (\<lambda>k. None),
      predict = (\<lambda>k q w h. if k = 1 then Inr (Some [])
                            else Inr (Some [InfoString ''https://host/a.png''])),
      fetch_blob = (\<lambda>u. Inr ()),
      read_data_url = (\<lambda>b. Inr ''data:image/png;base64,AAAA'')\<rparr>"



definition gemini_no_image :: "string \<Rightarrow> string \<Rightarrow> js_error + string option list option" where
  "gemini_no_image p aspectRatio = Inr None"

definition intro_item :: VisualPlanItem where
  "intro_item = \<lparr>type = IMAGE, description = ''Intro'', imagePrompt = None,
                  videoStartTime = None, videoEndTime = None\<rparr>"

definition clip_item :: VisualPlanItem where
  "clip_item = \<lparr>type = VIDEO, description = ''Demo'', imagePrompt = None,
                 videoStartTime = None, videoEndTime = None\<rparr>"

text \<open>A speech model without audio in its first two answers, whose third call throws.\<close>

definition tts_always_fails :: "unit tts_env" where
  "tts_always_fails =
     \<lparr>tts_generate = (\<lambda>k t v. if k = 2 then Inl (Error ''quota exceeded'') else Inr None),
      decode_audio = (\<lambda>b. Inr ())\<rparr>"

text \<open>
  Answers of the planning model: the fenced array with trailing commas, prose with brackets
  of its own around a fenced array, and prose without brackets around one. Twenty-three
  frames, and planning models that throw, answer in prose and answer without text.
\<close>

definition fenced_example :: string where
  \<open>fenced_example = ''```json\<newline>[{"type":"IMAGE","description":"Intro",},]\<newline>```''\<close>

definition prose_with_brackets :: string where
  \<open>prose_with_brackets = ''See [docs]. ```json\<newline>[1]\<newline>``` Done.''\<close>

definition prose_around_array :: string where
  \<open>prose_around_array = ''Here is the plan: ```JSON\<newline>[{"a": [1, 2 , ], }\<newline>,]\<newline>``` Done.''\<close>

definition frames23 :: "VideoFrame list" where
  "frames23 = map (\<lambda>k. \<lparr>timestamp = Num (of_nat k), frame_base64 = ''f''\<rparr>) [0..<23]"

definition generate_throws :: "part list \<Rightarrow> js_error + string option" where
  "generate_throws parts = Inl (Error ''503'')"

definition generate_prose :: "part list \<Rightarrow> js_error + string option" where
  "generate_prose parts = Inr (Some ''Sorry, I cannot plan this.'')"

definition generate_no_text :: "part list \<Rightarrow> js_error + string option" where
  "generate_no_text parts = Inr None"

text \<open>
  Archives: one text file of 512001 characters; a README in capitals after a source file,
  a directory, an image and a text with a null character.
\<close>

definition one_large_file :: "(string \<times> zip_entry) list" where
  "one_large_file =
     [(''a.txt'', \<lparr>dir = False, async_string = Inr (replicate 512001 (CHR ''a''))\<rparr>)]"

definition small_project :: "(string \<times> zip_entry) list" where
  "small_project =
     [(''src/'', \<lparr>dir = True, async_string = Inr []\<rparr>),
      (''src/main.ts'', \<lparr>dir = False, async_string = Inr ''let x = 1''\<rparr>),
      (''logo.png'', \<lparr>dir = False, async_string = Inr ''PNG''\<rparr>),
      (''notes.txt'', \<lparr>dir = False, async_string = Inr [CHR ''a'', CHR 0x00, CHR ''b'']\<rparr>),
      (''README.MD'', \<lparr>dir = False, async_string = Inr ''# Title''\<rparr>)]"

section \<open>Properties\<close>

subsection \<open>The asset generator\<close>

lemma generateAsset_video:
  "type planItem = VIDEO \<Longrightarrow>
   generateAsset env gemini_image planItem platform =
     (Some \<lparr>asset_type = video, asset_description = description planItem,
            base64 = None, prompt = None, videoUrl = None,
            videoStart = Some (number_or (videoStartTime planItem) (Num 0)),
            videoEnd = Some (number_or (videoEndTime planItem) (Num 5))\<rparr>, [])"
  by (simp add: generateAsset_def)

lemma flux_attempt_events:
  "flux_attempt env p w h k = (r, evs) \<Longrightarrow>
     attempts_made evs = 1 \<and> (\<forall>q w' h'. Predict q w' h' \<in> set evs \<longrightarrow> w' = w \<and> h' = h)
     \<and> (\<forall>q a. GeminiImageRequest q a \<notin> set evs)"
  by (auto simp: flux_attempt_def attempts_made_def split: option.splits sum.splits if_splits)


lemma flux_loop_done: "MAX_RETRIES < a \<Longrightarrow> flux_loop env p w h a tr = (None, tr)"
  by (subst flux_loop.simps) simp

lemma flux_loop_return_step:
  "a \<le> MAX_RETRIES \<Longrightarrow> flux_attempt env p w h a = (Inr r, evs) \<Longrightarrow>
   flux_loop env p w h a tr = (r, tr @ evs)"
  by (subst flux_loop.simps) simp

lemma flux_loop_throw_last:
  "flux_attempt env p w h MAX_RETRIES = (Inl e, evs) \<Longrightarrow>
   flux_loop env p w h MAX_RETRIES tr = (None, tr @ evs)"
  by (subst flux_loop.simps) (simp add: flux_loop_done)

lemma flux_loop_throw_retry:
  "a < MAX_RETRIES \<Longrightarrow> flux_attempt env p w h a = (Inl e, evs) \<Longrightarrow>
   flux_loop env p w h a tr =
     flux_loop env p w h (Suc a) (tr @ evs @ [Wait ((3 / 2) ^ a * INITIAL_DELAY)])"
  by (subst flux_loop.simps) simp

lemma flux_loop_events:
  "flux_loop env p w h k tr = (r, tr') \<Longrightarrow>
   (\<forall>q w' h'. Predict q w' h' \<in> set tr \<longrightarrow> w' = w \<and> h' = h) \<Longrightarrow>
   (\<forall>q a. GeminiImageRequest q a \<notin> set tr) \<Longrightarrow>
   (\<forall>q w' h'. Predict q w' h' \<in> set tr' \<longrightarrow> w' = w \<and> h' = h) \<and> (\<forall>q a. GeminiImageRequest q a \<notin> set tr')"
proof (induction "Suc MAX_RETRIES - k" arbitrary: k tr)
  case 0
  then have "MAX_RETRIES < k" by simp
  with 0 show ?case by (simp add: flux_loop_done)
next
  case (Suc n)
  then have le: "k \<le> MAX_RETRIES" by simp
  obtain res evs where att: "flux_attempt env p w h k = (res, evs)"
    by (cases "flux_attempt env p w h k")
  note ev = flux_attempt_events[OF att]
  show ?case
  proof (cases res)
    case (Inr v)
    with le att Suc.prems ev show ?thesis
      by (auto simp: flux_loop_return_step)
  next
    case (Inl e)
    show ?thesis
    proof (cases "k = MAX_RETRIES")
      case True
      with att Inl Suc.prems ev show ?thesis
        by (auto simp: flux_loop_throw_last)
    next
      case False
      with le have lt: "k < MAX_RETRIES" by simp
      have n: "n = Suc MAX_RETRIES - Suc k" using Suc.hyps(2) by simp
      have "flux_loop env p w h (Suc k) (tr @ evs @ [Wait ((3 / 2) ^ k * INITIAL_DELAY)]) = (r, tr')"
        using flux_loop_throw_retry[OF lt, of env p w h e evs tr] att Inl Suc.prems(1) by simp
      from Suc.hyps(1)[OF n this] Suc.prems ev show ?thesis by auto
    qed
  qed
qed

lemma attempts_made_append [simp]: "attempts_made (xs @ ys) = attempts_made xs + attempts_made ys"
  by (simp add: attempts_made_def)

lemma attempts_made_Wait [simp]: "attempts_made [Wait d] = 0"
  by (simp add: attempts_made_def)







lemma attempts_made_Nil [simp]: "attempts_made [] = 0"
  by (simp add: attempts_made_def)

lemma generateAsset_image_trace:
  assumes "type planItem = IMAGE"
    and "p = string_or (imagePrompt planItem) (description planItem)"
    and "w = (if platform = TIKTOK \<or> platform = INSTAGRAM then 768 else 1024)"
    and "h = (if platform = TIKTOK \<or> platform = INSTAGRAM then 1024 else 768)"
  shows "snd (generateAsset env g planItem platform) =
     (if truthy_string (fst (generateWithFlux env p w h)) then snd (generateWithFlux env p w h)
      else snd (generateWithFlux env p w h)
           @ [GeminiImageRequest p (if platform = TIKTOK \<or> platform = INSTAGRAM then ''9:16'' else ''16:9'')])"
  using assms
  by (cases platform; cases "generateWithFlux env p w h")
     (auto simp: generateAsset_def generateWithGemini_def Let_def split: prod.splits)




text \<open>
  C8. For an IMAGE plan item, every request to the primary provider asks for 768 by 1024 on
  the portrait platforms (TikTok, Instagram) and for 1024 by 768 on the others (YouTube,
  Generic), and every request to the fallback provider carries the aspect ratio 9:16 on the
  portrait platforms and 16:9 on the others.
\<close>

theorem generateAsset_image_requests:
  assumes "type planItem = IMAGE"
    and "generateAsset env g planItem platform = (asset, tr)"
  shows "(\<forall>q w h. Predict q w h \<in> set tr \<longrightarrow>
            (w, h) = (if platform = TIKTOK \<or> platform = INSTAGRAM then (768, 1024) else (1024, 768)))
     \<and> (\<forall>q a. GeminiImageRequest q a \<in> set tr \<longrightarrow>
            a = (if platform = TIKTOK \<or> platform = INSTAGRAM then ''9:16'' else ''16:9''))"
proof -
  define p where "p = string_or (imagePrompt planItem) (description planItem)"
  define w :: nat where "w = (if platform = TIKTOK \<or> platform = INSTAGRAM then 768 else 1024)"
  define h :: nat where "h = (if platform = TIKTOK \<or> platform = INSTAGRAM then 1024 else 768)"
  obtain r ftr where fl: "generateWithFlux env p w h = (r, ftr)"
    by (cases "generateWithFlux env p w h")
  then have "flux_loop env p w h 1 [] = (r, ftr)" by (simp add: generateWithFlux_def)
  from flux_loop_events[OF this]
  have ev: "(\<forall>q w' h'. Predict q w' h' \<in> set ftr \<longrightarrow> w' = w \<and> h' = h)
     \<and> (\<forall>q a. GeminiImageRequest q a \<notin> set ftr)" by simp
  have tr: "tr = (if truthy_string r then ftr
      else ftr @ [GeminiImageRequest p (if platform = TIKTOK \<or> platform = INSTAGRAM then ''9:16'' else ''16:9'')])"
    using generateAsset_image_trace[OF assms(1) p_def w_def h_def, of env g] assms(2) fl by simp
  show ?thesis using ev tr by (auto simp: w_def h_def split: if_splits)
qed

theorem generateAsset_image_requests_witness:
  "generateAsset env_empty_first gemini_no_image intro_item TIKTOK =
     (None, [Connect, Predict (enhancedPrompt ''Intro'') 768 1024,
             GeminiImageRequest ''Intro'' ''9:16''])"
proof -
  have h1: "type intro_item = IMAGE" by (simp add: intro_item_def)
  have h2: "generateAsset env_empty_first gemini_no_image intro_item TIKTOK =
     (None, [Connect, Predict (enhancedPrompt ''Intro'') 768 1024,
             GeminiImageRequest ''Intro'' ''9:16''])"
    by code_simp
  from generateAsset_image_requests[OF h1 h2] h2 show ?thesis by simp
qed

text \<open>
  C9. For a VIDEO plan item without \<open>videoStartTime\<close> and \<open>videoEndTime\<close>, no provider is
  called (the trace is empty) and the asset is a video with start 0 and end 5.
\<close>

theorem generateAsset_video_defaults:
  assumes "type planItem = VIDEO"
    and "videoStartTime planItem = None"
    and "videoEndTime planItem = None"
  shows "generateAsset env gemini_image planItem platform =
     (Some \<lparr>asset_type = video, asset_description = description planItem,
            base64 = None, prompt = None, videoUrl = None,
            videoStart = Some (Num 0), videoEnd = Some (Num 5)\<rparr>, [])"
  using assms by (simp add: generateAsset_video)

theorem generateAsset_video_defaults_witness:
  "generateAsset env_empty_first gemini_no_image clip_item TIKTOK =
     (Some \<lparr>asset_type = video, asset_description = ''Demo'',
            base64 = None, prompt = None, videoUrl = None,
            videoStart = Some (Num 0), videoEnd = Some (Num 5)\<rparr>, [])"
proof -
  have h1: "type clip_item = VIDEO" by (simp add: clip_item_def)
  have h2: "videoStartTime clip_item = None" by (simp add: clip_item_def)
  have h3: "videoEndTime clip_item = None" by (simp add: clip_item_def)
  from generateAsset_video_defaults[OF h1 h2 h3, of env_empty_first gemini_no_image TIKTOK]
  show ?thesis by (simp add: clip_item_def)
qed

text \<open>
  C10. The defaults of a VIDEO plan item apply to every falsy value: a \<open>videoEndTime\<close>
  that is present and falsy, such as 0, gives \<open>videoEnd = 5\<close>, and a falsy
  \<open>videoStartTime\<close>, such as 0, gives the same result as an absent one.
\<close>

theorem generateAsset_video_falsy_defaults:
  assumes "type planItem = VIDEO"
    and "\<not> truthy_number x"
  shows "map_option videoEnd (fst (generateAsset env gemini_image (planItem\<lparr>videoEndTime := Some x\<rparr>) platform))
           = Some (Some (Num 5))
       \<and> generateAsset env gemini_image (planItem\<lparr>videoStartTime := Some x\<rparr>) platform
           = generateAsset env gemini_image (planItem\<lparr>videoStartTime := None\<rparr>) platform"
  using assms by (simp add: generateAsset_video)

theorem generateAsset_video_falsy_defaults_witness:
  "map_option videoEnd
     (fst (generateAsset env_empty_first gemini_no_image (clip_item\<lparr>videoEndTime := Some (Num 0)\<rparr>) YOUTUBE))
     = Some (Some (Num 5))
   \<and> generateAsset env_empty_first gemini_no_image (clip_item\<lparr>videoStartTime := Some (Num 0)\<rparr>) YOUTUBE
     = generateAsset env_empty_first gemini_no_image (clip_item\<lparr>videoStartTime := None\<rparr>) YOUTUBE"
proof -
  have h1: "type clip_item = VIDEO" by (simp add: clip_item_def)
  have h2: "\<not> truthy_number (Num 0)" by simp
  from generateAsset_video_falsy_defaults[OF h1 h2, of env_empty_first gemini_no_image YOUTUBE] show ?thesis .
qed

subsection \<open>The voice synthesizer\<close>





text \<open>
  C7. When the cleaned script is empty, the error of the empty script is raised and the
  trace is empty: no request has been made. A text of white space, a bracketed cue, an
  aside in parentheses and asterisks is such an input.
\<close>

theorem generateVoiceover_empty_script:
  assumes "cleanScriptForTTS text = []"
  shows "generateVoiceover env text voice =
     (Inl (Error ''Script is empty (or contained only unreadable content).''), [])"
  using assms by (simp add: generateVoiceover_def)

theorem generateVoiceover_empty_script_witness:
  "generateVoiceover tts_always_fails '' [cue] (aside) ** '' KORE =
     (Inl (Error ''Script is empty (or contained only unreadable content).''), [])"
proof -
  have h: "cleanScriptForTTS '' [cue] (aside) ** '' = []" by code_simp
  from generateVoiceover_empty_script[OF h] show ?thesis .
qed

subsection \<open>The text sanitizer\<close>

lemma ascii_lower_backtick: "ascii_lower c = CHR ''`'' \<Longrightarrow> c = CHR ''`''"
  by (simp add: ascii_lower_def split: if_splits)

lemma json_fence_at_fence:
  assumes "json_fence_at s"
  shows "fence_at s"
proof -
  from assms have a: "map ascii_lower (take 7 s) = ''```json''" by (simp add: json_fence_at_def)
  obtain a s1 where s: "s = a # s1" using a by (cases s) auto
  obtain b s2 where s1: "s1 = b # s2" using a s by (cases s1) auto
  obtain c s3 where s2: "s2 = c # s3" using a s s1 by (cases s2) auto
  from a s s1 s2 show ?thesis by (simp add: ascii_lower_backtick fence_at_def)
qed

lemma json_fence_at_length:
  assumes "json_fence_at s"
  shows "7 \<le> length s"
proof -
  from assms have "map ascii_lower (take 7 s) = ''```json''" by (simp add: json_fence_at_def)
  then have "length (map ascii_lower (take 7 s)) = length ''```json''" by (rule arg_cong)
  then show ?thesis by simp
qed

lemma fence_at_length:
  assumes "fence_at s"
  shows "3 \<le> length s"
proof -
  from assms have "take 3 s = ''```''" by (simp add: fence_at_def)
  then have "length (take 3 s) = length ''```''" by (rule arg_cong)
  then show ?thesis by simp
qed

text \<open>A match of a pattern cannot reach into a text that starts outside the pattern.\<close>

lemma match_append:
  assumes "R = [] \<or> f (hd R) \<notin> set pat"
  shows "(map f (take (length pat) (U @ R)) = pat) = (map f (take (length pat) U) = pat)"
proof (cases "length pat \<le> length U")
  case True
  then show ?thesis by simp
next
  case False
  then have short: "length U < length pat" by simp
  have rhs: "map f (take (length pat) U) \<noteq> pat"
  proof
    assume "map f (take (length pat) U) = pat"
    then have "length (map f (take (length pat) U)) = length pat" by (rule arg_cong)
    with short show False by simp
  qed
  have "map f (take (length pat) (U @ R)) \<noteq> pat"
  proof (cases "R = []")
    case True
    with rhs show ?thesis by simp
  next
    case False
    with assms have out: "f (hd R) \<notin> set pat" by simp
    show ?thesis
    proof
      assume eq: "map f (take (length pat) (U @ R)) = pat"
      have i: "length U < length (take (length pat) (U @ R))"
        using short False by (cases R) simp_all
      have "pat ! length U = map f (take (length pat) (U @ R)) ! length U" using eq by simp
      also have "\<dots> = f (take (length pat) (U @ R) ! length U)" using i by (rule nth_map)
      also have "take (length pat) (U @ R) ! length U = (U @ R) ! length U"
        using short by (rule nth_take)
      also have "(U @ R) ! length U = hd R" using False by (simp add: nth_append hd_conv_nth)
      finally have "f (hd R) = pat ! length U" by simp
      with short have "f (hd R) \<in> set pat" by simp
      with out show False by simp
    qed
  qed
  with rhs show ?thesis by simp
qed

lemma json_fence_at_append:
  assumes "R = [] \<or> ascii_lower (hd R) \<notin> set ''```json''"
  shows "json_fence_at (U @ R) = json_fence_at U"
proof -
  have l: "length ''```json'' = 7" by simp
  from match_append[of R ascii_lower "''```json''" U, OF assms] show ?thesis
    unfolding l json_fence_at_def .
qed

lemma fence_at_append:
  assumes "R = [] \<or> hd R \<noteq> CHR ''`''"
  shows "fence_at (U @ R) = fence_at U"
proof -
  have l: "length ''```'' = 3" by simp
  have "R = [] \<or> id (hd R) \<notin> set ''```''" using assms by simp
  from match_append[of R id "''```''" U, OF this] show ?thesis
    unfolding l fence_at_def by simp
qed

lemma strip_json_fences_append:
  assumes R: "R = [] \<or> ascii_lower (hd R) \<notin> set ''```json''"
  shows "strip_json_fences (U @ R) = strip_json_fences U @ strip_json_fences R"
proof (induction U rule: length_induct)
  case (1 U)
  show ?case
  proof (cases U)
    case Nil
    then show ?thesis by simp
  next
    case (Cons c cs)
    have m: "json_fence_at (c # cs @ R) = json_fence_at (c # cs)"
      using json_fence_at_append[OF R, of "c # cs"] by simp
    show ?thesis
    proof (cases "json_fence_at (c # cs)")
      case True
      from json_fence_at_length[OF True] have len: "7 \<le> length (c # cs)" .
      then have d: "drop 7 (c # cs @ R) = drop 7 (c # cs) @ R" by simp
      have "length (drop 7 (c # cs)) < length U" using Cons by simp
      with 1 have ih: "strip_json_fences (drop 7 (c # cs) @ R)
                     = strip_json_fences (drop 7 (c # cs)) @ strip_json_fences R" by blast
      show ?thesis using True m Cons d ih by (simp add: strip_json_fences.simps(2))
    next
      case False
      have "length cs < length U" using Cons by simp
      with 1 have ih: "strip_json_fences (cs @ R) = strip_json_fences cs @ strip_json_fences R"
        by blast
      show ?thesis using False m Cons ih by (simp add: strip_json_fences.simps(2))
    qed
  qed
qed

lemma strip_fences_append:
  assumes R: "R = [] \<or> hd R \<noteq> CHR ''`''"
  shows "strip_fences (U @ R) = strip_fences U @ strip_fences R"
proof (induction U rule: length_induct)
  case (1 U)
  show ?case
  proof (cases U)
    case Nil
    then show ?thesis by simp
  next
    case (Cons c cs)
    have m: "fence_at (c # cs @ R) = fence_at (c # cs)"
      using fence_at_append[OF R, of "c # cs"] by simp
    show ?thesis
    proof (cases "fence_at (c # cs)")
      case True
      from fence_at_length[OF True] have len: "3 \<le> length (c # cs)" .
      then have d: "drop 3 (c # cs @ R) = drop 3 (c # cs) @ R" by simp
      have "length (drop 3 (c # cs)) < length U" using Cons by simp
      with 1 have ih: "strip_fences (drop 3 (c # cs) @ R)
                     = strip_fences (drop 3 (c # cs)) @ strip_fences R" by blast
      show ?thesis using True m Cons d ih by (simp add: strip_fences.simps(2))
    next
      case False
      have "length cs < length U" using Cons by simp
      with 1 have ih: "strip_fences (cs @ R) = strip_fences cs @ strip_fences R"
        by blast
      show ?thesis using False m Cons ih by (simp add: strip_fences.simps(2))
    qed
  qed
qed

text \<open>Stripping only deletes.\<close>

lemma set_strip_json_fences: "set (strip_json_fences s) \<subseteq> set s"
proof (induction s rule: length_induct)
  case (1 s)
  show ?case
  proof (cases s)
    case Nil
    then show ?thesis by simp
  next
    case (Cons c cs)
    have "length (drop 7 (c # cs)) < length s" "length cs < length s" using Cons by simp_all
    with 1 have "set (strip_json_fences (drop 7 (c # cs))) \<subseteq> set (drop 7 (c # cs))"
      and "set (strip_json_fences cs) \<subseteq> set cs" by blast+
    moreover have "set (drop 7 (c # cs)) \<subseteq> set (c # cs)" by (rule set_drop_subset)
    ultimately show ?thesis using Cons by (auto simp: strip_json_fences.simps(2))
  qed
qed

lemma set_strip_fences: "set (strip_fences s) \<subseteq> set s"
proof (induction s rule: length_induct)
  case (1 s)
  show ?case
  proof (cases s)
    case Nil
    then show ?thesis by simp
  next
    case (Cons c cs)
    have "length (drop 3 (c # cs)) < length s" "length cs < length s" using Cons by simp_all
    with 1 have "set (strip_fences (drop 3 (c # cs))) \<subseteq> set (drop 3 (c # cs))"
      and "set (strip_fences cs) \<subseteq> set cs" by blast+
    moreover have "set (drop 3 (c # cs)) \<subseteq> set (c # cs)" by (rule set_drop_subset)
    ultimately show ?thesis using Cons by (auto simp: strip_fences.simps(2))
  qed
qed

text \<open>A text without a run of three backticks that does not end in a backtick passes.\<close>

lemma no_fence_at_start:
  assumes "\<not> has_fence V" and "V \<noteq> []" and "last V \<noteq> CHR ''`''"
  shows "\<not> fence_at (V @ W)"
proof (cases "3 \<le> length V")
  case True
  then have e: "take 3 (V @ W) = take 3 V" by simp
  have "\<not> fence_at V" using assms(1,2) by (cases V) simp_all
  then show ?thesis unfolding fence_at_def e .
next
  case False
  show ?thesis
  proof
    assume "fence_at (V @ W)"
    then have t: "take 3 (V @ W) = ''```''" by (simp add: fence_at_def)
    have i: "length V - 1 < 3" using False by simp
    have "take 3 (V @ W) ! (length V - 1) = (V @ W) ! (length V - 1)" using i by (rule nth_take)
    also have "\<dots> = last V" using assms(2) by (simp add: nth_append last_conv_nth)
    finally have "last V = ''```'' ! (length V - 1)" using t by simp
    moreover have "''```'' ! (length V - 1) \<in> set ''```''" using i by (intro nth_mem) simp
    ultimately show False using assms(3) by simp
  qed
qed


lemma strip_json_fences_pass:
  "\<not> has_fence V \<Longrightarrow> V = [] \<or> last V \<noteq> CHR ''`'' \<Longrightarrow>
   strip_json_fences (V @ W) = V @ strip_json_fences W"
proof (induction V)
  case Nil
  then show ?case by simp
next
  case (Cons c V)
  have "\<not> fence_at ((c # V) @ W)" using Cons.prems by (intro no_fence_at_start) simp_all
  then have nm: "\<not> json_fence_at (c # V @ W)" using json_fence_at_fence by auto
  have "\<not> has_fence V" using Cons.prems(1) by simp
  moreover have "V = [] \<or> last V \<noteq> CHR ''`''" using Cons.prems(2) by (cases V) simp_all
  ultimately have "strip_json_fences (V @ W) = V @ strip_json_fences W" by (rule Cons.IH)
  with nm show ?case by (simp add: strip_json_fences.simps(2))
qed

lemma strip_fences_pass:
  "\<not> has_fence V \<Longrightarrow> V = [] \<or> last V \<noteq> CHR ''`'' \<Longrightarrow>
   strip_fences (V @ W) = V @ strip_fences W"
proof (induction V)
  case Nil
  then show ?case by simp
next
  case (Cons c V)
  have "\<not> fence_at ((c # V) @ W)" using Cons.prems by (intro no_fence_at_start) simp_all
  then have nm: "\<not> fence_at (c # V @ W)" by simp
  have "\<not> has_fence V" using Cons.prems(1) by simp
  moreover have "V = [] \<or> last V \<noteq> CHR ''`''" using Cons.prems(2) by (cases V) simp_all
  ultimately have "strip_fences (V @ W) = V @ strip_fences W" by (rule Cons.IH)
  with nm show ?case by (simp add: strip_fences.simps(2))
qed

text \<open>The array text survives both passes, between what is left of its surroundings.\<close>

lemma strip_around_array:
  assumes "arr = CHR ''['' # body @ '']''" and "\<not> has_fence arr"
  shows "\<exists>P Q. strip_fences (strip_json_fences (before @ arr @ after)) = P @ arr @ Q
           \<and> set P \<subseteq> set before \<and> set Q \<subseteq> set after"
proof -
  have hd1: "arr @ X = [] \<or> ascii_lower (hd (arr @ X)) \<notin> set ''```json''" for X
    using assms(1) by (simp add: ascii_lower_def)
  have hd2: "arr @ X = [] \<or> hd (arr @ X) \<noteq> CHR ''`''" for X
    using assms(1) by simp
  have lst: "arr = [] \<or> last arr \<noteq> CHR ''`''" using assms(1) by simp
  define P1 where "P1 = strip_json_fences before"
  define Q1 where "Q1 = strip_json_fences after"
  have "strip_json_fences (before @ arr @ after) = P1 @ strip_json_fences (arr @ after)"
    using strip_json_fences_append[where R="arr @ after" and U=before, OF hd1] by (simp add: P1_def)
  also have "strip_json_fences (arr @ after) = arr @ Q1"
    using strip_json_fences_pass[OF assms(2) lst, of after] by (simp add: Q1_def)
  finally have one: "strip_json_fences (before @ arr @ after) = P1 @ arr @ Q1" .
  have "strip_fences (P1 @ arr @ Q1) = strip_fences P1 @ strip_fences (arr @ Q1)"
    using strip_fences_append[where R="arr @ Q1" and U=P1, OF hd2] by simp
  also have "strip_fences (arr @ Q1) = arr @ strip_fences Q1"
    using strip_fences_pass[OF assms(2) lst, of Q1] .
  finally have two: "strip_fences (strip_json_fences (before @ arr @ after))
      = strip_fences P1 @ arr @ strip_fences Q1" using one by simp
  have "set (strip_fences P1) \<subseteq> set before"
    using set_strip_fences[of P1] set_strip_json_fences[of before] by (auto simp: P1_def)
  moreover have "set (strip_fences Q1) \<subseteq> set after"
    using set_strip_fences[of Q1] set_strip_json_fences[of after] by (auto simp: Q1_def)
  ultimately show ?thesis using two by blast
qed

lemma indexOf_first: "x \<notin> set P \<Longrightarrow> indexOf x (P @ x # R) = Some (length P)"
  by (induction P) auto

lemma lastIndexOf_absent: "x \<notin> set Q \<Longrightarrow> lastIndexOf x Q = None"
  by (induction Q) auto

lemma lastIndexOf_last: "x \<notin> set Q \<Longrightarrow> lastIndexOf x (P @ x # Q) = Some (length P)"
  by (induction P) (auto simp: lastIndexOf_absent)

lemma trim_id: "s \<noteq> [] \<Longrightarrow> \<not> is_space (hd s) \<Longrightarrow> \<not> is_space (last s) \<Longrightarrow> trim s = s"
proof -
  assume a: "s \<noteq> []" "\<not> is_space (hd s)" "\<not> is_space (last s)"
  then have "dropWhile is_space s = s" by (cases s) simp_all
  moreover have "dropWhile is_space (rev s) = rev s"
    using a by (cases "rev s") (simp_all add: last_rev[symmetric] hd_rev)
  ultimately show ?thesis by (simp add: trim_def)
qed

text \<open>The expression for trailing commas removes the commas that the description names.\<close>

lemma without_trailing_commas_spaces:
  "\<forall>c\<in>set ws. is_space c \<Longrightarrow> without_trailing_commas (ws @ r) = ws @ without_trailing_commas r"
  by (induction ws) (auto simp: is_space_def)

lemma remove_trailing_commas_keep:
  assumes "\<not> (c = CHR '','' \<and> before_closer cs)"
  shows "remove_trailing_commas (c # cs) = c # remove_trailing_commas cs"
proof (cases "dropWhile is_space cs")
  case Nil
  then show ?thesis by (simp add: remove_trailing_commas.simps del: dropWhile_eq_Nil_conv)
next
  case (Cons d rest)
  with assms show ?thesis by (simp add: remove_trailing_commas.simps)
qed

lemma remove_trailing_commas_drop:
  assumes "dropWhile is_space cs = d # rest" and "d = CHR '']'' \<or> d = CHR ''}''"
  shows "remove_trailing_commas (CHR '','' # cs) = takeWhile is_space cs @ d # remove_trailing_commas rest"
  using assms by (simp add: remove_trailing_commas.simps)

lemma remove_is_without: "remove_trailing_commas s = without_trailing_commas s"
proof (induction s rule: length_induct)
  case (1 s)
  show ?case
  proof (cases s)
    case Nil
    then show ?thesis by (simp add: remove_trailing_commas.simps)
  next
    case (Cons c cs)
    have ihcs: "remove_trailing_commas cs = without_trailing_commas cs"
      using 1 Cons by simp
    show ?thesis
    proof (cases "c = CHR '','' \<and> before_closer cs")
      case False
      from remove_trailing_commas_keep[OF False] ihcs Cons False show ?thesis
        by (simp del: before_closer.simps)
    next
      case True
      then obtain d rest where dw: "dropWhile is_space cs = d # rest"
        and d: "d = CHR '']'' \<or> d = CHR ''}''"
        by (cases "dropWhile is_space cs") auto
      have cs: "cs = takeWhile is_space cs @ d # rest"
        using dw takeWhile_dropWhile_id[of is_space cs] by simp
      have "length rest < length s"
        using Cons length_dropWhile_le[of is_space cs] dw by simp
      with 1 have ihr: "remove_trailing_commas rest = without_trailing_commas rest" by blast
      have sp: "\<forall>x\<in>set (takeWhile is_space cs). is_space x" by (auto dest: set_takeWhileD)
      have "remove_trailing_commas s = takeWhile is_space cs @ d # without_trailing_commas rest"
        using True Cons remove_trailing_commas_drop[OF dw d] ihr by simp
      also have "\<dots> = without_trailing_commas (takeWhile is_space cs @ d # rest)"
        using d without_trailing_commas_spaces[OF sp, of "d # rest"] by auto
      also have "\<dots> = without_trailing_commas cs" using cs by simp
      finally show ?thesis using True Cons by (simp del: before_closer.simps)
    qed
  qed
qed

lemma without_trailing_commas_last:
  "without_trailing_commas (xs @ '']'') \<noteq> [] \<and> last (without_trailing_commas (xs @ '']'')) = CHR '']''"
  by (induction xs) auto

text \<open>
  C5, as the code has it. \<open>cleanJson\<close> gives \<open>[]\<close> for the empty text. For a text that
  holds an array text, from its opening to its closing bracket and without a run of three
  backticks, between a part without an opening bracket and a part without a closing one,
  whatever fences and prose these parts hold, it gives exactly the array text without the
  commas that stand, white space apart, before a closing bracket or brace. The fenced
  array of the planner's example becomes an array of one element for the parser.
\<close>

theorem cleanJson_array_between:
  assumes "text = before @ arr @ after"
    and "arr = CHR ''['' # body @ '']''"
    and "\<not> has_fence arr"
    and "CHR ''['' \<notin> set before"
    and "CHR '']'' \<notin> set after"
  shows \<open>cleanJson text = without_trailing_commas arr
       \<and> cleanJson [] = ''[]''
       \<and> cleanJson fenced_example = ''[{"type":"IMAGE","description":"Intro"}]''
       \<and> JSON_parse (cleanJson fenced_example)
           = Some (JArray [JObject [(''type'', JString ''IMAGE''), (''description'', JString ''Intro'')]])\<close>
proof -
  obtain P Q where st: "strip_fences (strip_json_fences text) = P @ arr @ Q"
    and P: "set P \<subseteq> set before" and Q: "set Q \<subseteq> set after"
    using strip_around_array[OF assms(2,3), of before after] assms(1) by auto
  have nP: "CHR ''['' \<notin> set P" using P assms(4) by auto
  have nQ: "CHR '']'' \<notin> set Q" using Q assms(5) by auto
  have start: "indexOf (CHR ''['') (P @ arr @ Q) = Some (length P)"
    using indexOf_first[OF nP, of "body @ '']'' @ Q"] assms(2) by simp
  have "lastIndexOf (CHR '']'') ((P @ CHR ''['' # body) @ CHR '']'' # Q) = Some (length (P @ CHR ''['' # body))"
    using nQ by (rule lastIndexOf_last)
  then have end': "lastIndexOf (CHR '']'') (P @ arr @ Q) = Some (length P + length body + 1)"
    using assms(2) by simp
  have len: "length arr = length body + 2" using assms(2) by simp
  have sub: "substring (P @ arr @ Q) (length P) (length P + length body + 1 + 1) = arr"
    using len by (simp add: substring_def)
  have ne: "text \<noteq> []" using assms(1,2) by simp
  have w: "without_trailing_commas arr = CHR ''['' # without_trailing_commas (body @ '']'')"
    using assms(2) by simp
  have "trim (without_trailing_commas arr) = without_trailing_commas arr"
  proof (rule trim_id)
    show "without_trailing_commas arr \<noteq> []" using w by simp
    show "\<not> is_space (hd (without_trailing_commas arr))" using w by (simp add: is_space_def)
    show "\<not> is_space (last (without_trailing_commas arr))"
      using w without_trailing_commas_last[of body] by (simp add: is_space_def)
  qed
  then have gen: "cleanJson text = without_trailing_commas arr"
    using ne st start end' sub by (simp add: cleanJson_def remove_is_without)
  have e0: "cleanJson [] = ''[]''" by (simp add: cleanJson_def)
  have e1: \<open>cleanJson fenced_example = ''[{"type":"IMAGE","description":"Intro"}]''\<close>
    by code_simp
  have e2: \<open>JSON_parse (cleanJson fenced_example)
           = Some (JArray [JObject [(''type'', JString ''IMAGE''), (''description'', JString ''Intro'')]])\<close>
    by code_simp
  from gen e0 e1 e2 show ?thesis by blast
qed

theorem cleanJson_array_between_witness:
  \<open>cleanJson prose_around_array = ''[{"a": [1, 2  ] }\<newline>]''\<close>
proof -
  have h1: \<open>prose_around_array
      = ''Here is the plan: ```JSON\<newline>'' @ ''[{"a": [1, 2 , ], }\<newline>,]'' @ ''\<newline>``` Done.''\<close>
    by (simp add: prose_around_array_def)
  have h2: \<open>''[{"a": [1, 2 , ], }\<newline>,]'' = CHR ''['' # ''{"a": [1, 2 , ], }\<newline>,'' @ '']''\<close>
    by simp
  have h3: \<open>\<not> has_fence ''[{"a": [1, 2 , ], }\<newline>,]''\<close> by code_simp
  have h4: \<open>CHR ''['' \<notin> set ''Here is the plan: ```JSON\<newline>''\<close> by simp
  have h5: \<open>CHR '']'' \<notin> set ''\<newline>``` Done.''\<close> by simp
  have r: \<open>without_trailing_commas ''[{"a": [1, 2 , ], }\<newline>,]'' = ''[{"a": [1, 2  ] }\<newline>]''\<close>
    by code_simp
  from cleanJson_array_between[OF h1 h2 h3 h4 h5] r show ?thesis by simp
qed

text \<open>
  C5, as the specification states it, fails for prose with a bracket of its own: the text from the
  first opening bracket of the prose on is returned, and it does not parse.
\<close>

theorem cleanJson_bracket_in_prose:
  \<open>cleanJson prose_with_brackets = ''[docs]. \<newline>[1]''
   \<and> JSON_parse (cleanJson prose_with_brackets) = None\<close>
  by code_simp

subsection \<open>The visual planner\<close>

lemma ceil_fifth: "nat \<lceil>real n / real MAX_CONTEXT_FRAMES\<rceil> = (n + 4) div 5"
proof -
  have "\<lceil>real n / 5\<rceil> = \<lceil>of_int (int n) / (of_int 5 :: real)\<rceil>" by simp
  also have "\<dots> = - (- int n div 5)" by (rule ceiling_divide_eq_div)
  also have "\<dots> = (int n + 4) div 5" by presburger
  finally have "\<lceil>real n / 5\<rceil> = (int n + 4) div 5" .
  then have "nat \<lceil>real n / 5\<rceil> = nat ((int n + 4) div 5)" by simp
  also have "\<dots> = (n + 4) div 5"
    by (metis nat_div_distrib nat_int nat_numeral of_nat_0_le_iff of_nat_add of_nat_numeral)
  finally show ?thesis by (simp add: MAX_CONTEXT_FRAMES_def)
qed

lemma upt_0_Suc: "[0..<Suc r] = 0 # map Suc [0..<r]"
  by (simp add: upt_conv_Cons map_Suc_upt del: upt_Suc)

lemma frame_loop_stop: "\<not> i < length fs \<Longrightarrow> frame_loop fs s i parts = parts"
  by (subst frame_loop.simps) simp

lemma frame_loop_step:
  "i < length fs \<Longrightarrow> length parts < 10 \<Longrightarrow>
   frame_loop fs s i parts =
     frame_loop fs s (i + s)
       (parts @ [InlineData ''image/jpeg'' (frame_base64 (fs ! i)), TimestampText (timestamp (fs ! i))])"
  by (subst frame_loop.simps) (simp add: MAX_CONTEXT_FRAMES_def)

lemma remaining_step:
  assumes "0 < s" "i < n"
  shows "remaining n s i = Suc (remaining n s (i + s))"
proof (cases "i + s < n")
  case True
  define y where "y = n - (i + s) + s - 1"
  have e: "n - i + s - 1 = y + s" using True assms(1) by (simp add: y_def)
  have "(y + s) div s = y div s + 1" using assms(1) by simp
  with e have "(n - i + s - 1) div s = (n - (i + s) + s - 1) div s + 1" by (simp add: y_def)
  with True assms show ?thesis by (simp add: remaining_def)
next
  case False
  with assms have "s * 1 \<le> n - i + s - 1" "n - i + s - 1 < s * Suc 1" by simp_all
  then have "(n - i + s - 1) div s = 1" by (rule div_nat_eqI)
  with False assms show ?thesis by (simp add: remaining_def)
qed

lemma frame_loop_run:
  assumes "0 < s"
  shows "r = remaining (length fs) s i \<Longrightarrow> length parts + 2 * r \<le> 10 \<Longrightarrow>
     frame_loop fs s i parts =
       parts @ concat (map (\<lambda>k. [InlineData ''image/jpeg'' (frame_base64 (fs ! (i + k * s))),
                                   TimestampText (timestamp (fs ! (i + k * s)))]) [0..<r])"
proof (induction r arbitrary: i parts)
  case 0
  have "\<not> i < length fs"
  proof
    assume "i < length fs"
    from remaining_step[OF assms this] 0 show False by simp
  qed
  then show ?case by (simp add: frame_loop_stop)
next
  case (Suc r)
  have lt: "i < length fs" using Suc.prems(1) by (auto simp: remaining_def split: if_splits)
  from remaining_step[OF assms lt] Suc.prems(1) have r: "r = remaining (length fs) s (i + s)" by simp
  have len: "length parts < 10" using Suc.prems(2) by simp
  let ?p = "parts @ [InlineData ''image/jpeg'' (frame_base64 (fs ! i)), TimestampText (timestamp (fs ! i))]"
  have "length ?p + 2 * r \<le> 10" using Suc.prems(2) by simp
  from Suc.IH[OF r this] frame_loop_step[OF lt len, of s]
  show ?case by (simp add: upt_0_Suc comp_def add.assoc del: upt_Suc)
qed

text \<open>
  C6. For \<open>n \<ge> 1\<close> frames and the stride \<open>s\<close>, the ceiling of \<open>n / 5\<close>, the parts of the
  request are those of the frames at the indices \<open>0, s, 2s, ...\<close> below \<open>n\<close>, all of them
  and in this order; they are at most five, and for 23 frames they are 0, 5, 10, 15, 20.
\<close>

theorem frameParts_stride:
  assumes "n = length fs" and "1 \<le> n"
    and "s = nat \<lceil>real n / 5\<rceil>"
    and "m = (n + s - 1) div s"
    and "idx = map (\<lambda>k. k * s) [0..<m]"
  shows "frameParts (Some fs) =
           concat (map (\<lambda>i. [InlineData ''image/jpeg'' (frame_base64 (fs ! i)),
                              TimestampText (timestamp (fs ! i))]) idx)
       \<and> length idx \<le> 5 \<and> (\<forall>i\<in>set idx. i < n) \<and> n \<le> m * s
       \<and> (n = 23 \<longrightarrow> idx = [0, 5, 10, 15, 20])"
proof -
  have s: "s = (n + 4) div 5" using assms(3) ceil_fifth[of n] by (simp add: MAX_CONTEXT_FRAMES_def)
  with assms(2) have spos: "0 < s" by simp
  have n5: "n \<le> 5 * s" using s by simp
  have m5: "m \<le> 5"
  proof -
    have "n + s - 1 < 6 * s" using n5 spos by simp
    then have "(n + s - 1) div s < 6" using spos by (simp add: less_mult_imp_div_less)
    with assms(4) show ?thesis by simp
  qed
  have ms: "m * s \<le> n + s - 1" using assms(4) by simp
  have nm: "n \<le> m * s"
  proof -
    have "n + s - 1 < (m + 1) * s" using assms(4) spos
      by (metis Suc_eq_plus1 dividend_less_div_times mult.commute mult_Suc)
    then show ?thesis by simp
  qed
  have rem: "m = remaining (length fs) s 0" using assms(1,2,4) by (auto simp: remaining_def)
  have "frameParts (Some fs) = frame_loop fs s 0 []"
    using assms(1,2,3) by (cases fs) (simp_all add: frameParts_def MAX_CONTEXT_FRAMES_def)
  also have "\<dots> = concat (map (\<lambda>k. [InlineData ''image/jpeg'' (frame_base64 (fs ! (0 + k * s))),
                                   TimestampText (timestamp (fs ! (0 + k * s)))]) [0..<m])"
    using frame_loop_run[OF spos rem, of "[]"] m5 by simp
  finally have parts: "frameParts (Some fs) =
           concat (map (\<lambda>i. [InlineData ''image/jpeg'' (frame_base64 (fs ! i)),
                              TimestampText (timestamp (fs ! i))]) idx)"
    using assms(5) by (simp add: comp_def)
  have bound: "\<forall>i\<in>set idx. i < n"
  proof
    fix i assume "i \<in> set idx"
    then obtain k where k: "k < m" "i = k * s" using assms(5) by auto
    then have "Suc k \<le> m" by simp
    then have "Suc k * s \<le> m * s" by (rule mult_le_mono1)
    with ms k spos show "i < n" by simp
  qed
  have ex: "n = 23 \<longrightarrow> idx = [0, 5, 10, 15, 20]"
  proof
    assume "n = 23"
    with s have "s = 5" by simp
    with \<open>n = 23\<close> assms(4) have "m = 5" by simp
    have "[0..<5] = [0, 1, 2, 3, 4::nat]" by (simp add: upt_rec)
    with \<open>s = 5\<close> \<open>m = 5\<close> assms(5) show "idx = [0, 5, 10, 15, 20]" by simp
  qed
  from parts m5 bound nm ex assms(5) show ?thesis by simp
qed

theorem frameParts_stride_witness:
  "frameParts (Some frames23) =
     [InlineData ''image/jpeg'' ''f'', TimestampText (Num 0),
      InlineData ''image/jpeg'' ''f'', TimestampText (Num 5),
      InlineData ''image/jpeg'' ''f'', TimestampText (Num 10),
      InlineData ''image/jpeg'' ''f'', TimestampText (Num 15),
      InlineData ''image/jpeg'' ''f'', TimestampText (Num 20)]"
proof -
  have h1: "23 = length frames23" by (simp add: frames23_def)
  have h2: "1 \<le> (23::nat)" by simp
  have h3: "(5::nat) = nat \<lceil>real 23 / 5\<rceil>" using ceil_fifth[of 23] by (simp add: MAX_CONTEXT_FRAMES_def)
  have h4: "(5::nat) = (23 + 5 - 1) div 5" by simp
  have h5: "[0, 5, 10, 15, 20] = map (\<lambda>k. k * 5) [0..<5::nat]" by (simp add: upt_rec)
  from frameParts_stride[OF h1 h2 h3 h4 h5] show ?thesis by (simp add: frames23_def)
qed

text \<open>
  C2, as the code has it. The planner returns a value and never an error. When the request
  throws, or the cleaned text of the answer does not parse, the value is the fallback plan,
  whose four items have the type IMAGE and the descriptions Intro, Feature Highlight, User
  Benefit and Call to Action. When the cleaned text parses, the value is what the parser
  gives, as it is. One request is made in every case.
\<close>

theorem generateVisualPlan_fallback:
  assumes "parts = request_parts script files videoFrames"
    and "run = generateVisualPlan parse generate script files videoFrames"
  shows "(\<forall>e. generate parts = Inl e \<longrightarrow> fst run = fallback_plan)
     \<and> (\<forall>text. generate parts = Inr text \<and> parse (cleanJson (string_or text ''[]'')) = None
           \<longrightarrow> fst run = fallback_plan)
     \<and> (\<forall>text plan. generate parts = Inr text \<and> parse (cleanJson (string_or text ''[]'')) = Some plan
           \<longrightarrow> fst run = plan)
     \<and> snd run = [PlanRequest parts]
     \<and> map_option (map (property ''type'')) (elements fallback_plan)
         = Some (replicate 4 (Some (JString ''IMAGE'')))
     \<and> map_option (map (property ''description'')) (elements fallback_plan)
         = Some [Some (JString ''Intro''), Some (JString ''Feature Highlight''),
                 Some (JString ''User Benefit''), Some (JString ''Call to Action'')]"
  using assms
  by (auto simp: generateVisualPlan_def plan_try_def fallback_plan_def numeral_eq_Suc)

theorem generateVisualPlan_fallback_witness:
  "fst (generateVisualPlan JSON_parse generate_throws ''Buy now'' [] None) = fallback_plan
   \<and> fst (generateVisualPlan JSON_parse generate_prose ''Buy now'' [] None) = fallback_plan"
proof -
  have h1: "generate_throws (request_parts ''Buy now'' [] None) = Inl (Error ''503'')"
    by (simp add: generate_throws_def)
  have h2: "generate_prose (request_parts ''Buy now'' [] None) = Inr (Some ''Sorry, I cannot plan this.'')
      \<and> JSON_parse (cleanJson (string_or (Some ''Sorry, I cannot plan this.'') ''[]'')) = None"
    by (simp add: generate_prose_def) code_simp
  from generateVisualPlan_fallback[where parse = JSON_parse and generate = generate_throws and script = "''Buy now''"
            and files = "[]" and videoFrames = None, OF refl refl] h1
       generateVisualPlan_fallback[where parse = JSON_parse and generate = generate_prose and script = "''Buy now''"
            and files = "[]" and videoFrames = None, OF refl refl] h2
  show ?thesis by blast
qed

text \<open>
  C2, as the specification states it, fails in its last part: a plan that is not empty is not what
  every caller receives. The answer without text is replaced by \<open>[]\<close>, which parses, and
  the plan returned has no item.
\<close>

theorem generateVisualPlan_empty_plan:
  "elements (fst (generateVisualPlan JSON_parse generate_no_text ''Buy now'' [] None)) = Some []"
  by code_simp

subsection \<open>The archive extractor\<close>

text \<open>
  What the loop keeps: at most 50 files come back, each with a name that ends, in lower
  case, in one of the extensions of the list, and with a text without a null character.
\<close>

lemma extract_loop_stop:
  "MAX_FILES \<le> length files \<or> MAX_TOTAL_SIZE \<le> totalSize \<Longrightarrow>
   extract_loop zf (filename # rest) files totalSize = Inr files"
  by auto

lemma extract_loop_selection:
  "extract_loop zf names files totalSize = Inr result \<Longrightarrow>
   length files \<le> MAX_FILES \<Longrightarrow>
   length result \<le> MAX_FILES
   \<and> (\<forall>f\<in>set result. f \<in> set files \<or> (isRelevant (name f) \<and> CHR 0x00 \<notin> set (content f)))"
proof (induction zf names files totalSize rule: extract_loop.induct)
  case (1 zip_files files totalSize)
  then show ?case by auto
next
  case (2 zip_files filename rest files totalSize)
  show ?case
  proof (cases "length files \<ge> MAX_FILES \<or> totalSize \<ge> MAX_TOTAL_SIZE")
    case True
    from extract_loop_stop[OF True] "2.prems"(1) have "result = files" by simp
    with "2.prems"(2) show ?thesis by simp
  next
    case False
    then have lt: "length files < MAX_FILES" "\<not> MAX_FILES \<le> length files" "\<not> MAX_TOTAL_SIZE \<le> totalSize" by simp_all
    from "2.prems"(1) lt obtain fileEntry where fe: "zip_files filename = Some fileEntry"
      by (cases "zip_files filename") auto
    show ?thesis
    proof (cases "dir fileEntry")
      case True
      with "2.prems" lt fe "2.IH"(1)[OF lt(2,3) fe True] show ?thesis by simp
    next
      case nd: False
      show ?thesis
      proof (cases "isRelevant filename")
        case False
        with "2.prems" lt fe nd "2.IH"(2)[OF lt(2,3) fe nd] show ?thesis by simp
      next
        case rel: True
        from "2.prems"(1) lt fe nd rel obtain textContent where tc: "async_string fileEntry = Inr textContent"
          by (cases "async_string fileEntry") auto
        show ?thesis
        proof (cases "CHR 0x00 \<in> set textContent")
          case True
          with "2.prems" lt fe nd rel tc "2.IH"(3)[OF lt(2,3) fe nd _ tc True] show ?thesis by simp
        next
          case False
          have r: "extract_loop zip_files rest (files @ [\<lparr>name = filename, content = textContent\<rparr>])
                     (totalSize + length textContent) = Inr result"
            using "2.prems"(1) lt fe nd rel tc False by simp
          have l: "length (files @ [\<lparr>name = filename, content = textContent\<rparr>]) \<le> MAX_FILES"
            using lt by simp
          from "2.IH"(4)[OF lt(2,3) fe nd _ tc False r l] rel False show ?thesis by auto
        qed
      qed
    qed
  qed
qed

lemma extractTextFromZip_selection:
  assumes "extractTextFromZip loaded = Inr result"
  shows "length result \<le> 50
       \<and> (\<forall>f\<in>set result. isRelevant (name f) \<and> CHR 0x00 \<notin> set (content f))"
proof -
  from assms obtain contents where "loaded = Inr contents"
    by (cases loaded) (auto simp: extractTextFromZip_def)
  with assms have "extract_loop (map_of contents) (sort_key score (map fst contents)) [] 0 = Inr result"
    by (simp add: extractTextFromZip_def)
  from extract_loop_selection[OF this] show ?thesis by (simp add: MAX_FILES_def)
qed

text \<open>
  On a small project the README comes first, and the directory, the image and the text
  with a null character are left out.
\<close>

lemma isRelevant_a: "isRelevant ''a.txt''"
  by code_simp

text \<open>
  C3. The cumulative length of the texts is to be at most 500KB, the limit that the
  comment at \<open>MAX_TOTAL_SIZE\<close> names. The loop tests the total before it reads a file and
  not after it has added one: from an archive of one text file of 512001 characters the
  file comes back whole, 512001 characters against a limit of 512000.
\<close>

theorem extractTextFromZip_exceeds_size_limit:
  "extractTextFromZip (Inr one_large_file)
     = Inr [\<lparr>name = ''a.txt'', content = replicate 512001 (CHR ''a'')\<rparr>]
   \<and> total_length [\<lparr>name = ''a.txt'', content = replicate 512001 (CHR ''a'')\<rparr>] = 512001
   \<and> MAX_TOTAL_SIZE = 512000"
  by (simp add: extractTextFromZip_def one_large_file_def isRelevant_a MAX_FILES_def
      MAX_TOTAL_SIZE_def total_length_def)

end
